theory Spec2Isabelle
  imports Main "HOL-Library.Multiset"
begin

section \<open>Data model\<close>

text \<open>
  \<^verbatim>\<open>TocNode\<close> of \<^verbatim>\<open>types.ts\<close>: \<^verbatim>\<open>{ id: string, title: string, children: TocNode[] }\<close>.
  The forest held in the React state \<^verbatim>\<open>nodes\<close> is a \<open>TocNode list\<close>. The field
  \<^verbatim>\<open>id\<close> is written \<open>id'\<close> (\<open>id\<close> is HOL's identity function). The drop position
  \<^verbatim>\<open>'top' | 'bottom'\<close> is the spec's Before / After.
\<close>

datatype TocNode = TocNode (id': string) (title: string) (children: "TocNode list")

datatype position = Top | Bottom

lemma size_children [termination_simp]: "size_list size (children node) < size node"
  by (cases node) simp

lemma size_children_Suc [termination_simp]:
  "size_list size (children node) < Suc (size node + k)"
  by (cases node) simp

section \<open>The tree operations of App.tsx\<close>

text \<open>
  \<^verbatim>\<open>addNode\<close> (lines 50-68). \<^verbatim>\<open>parentId === null\<close> appends at the root; otherwise
  \<^verbatim>\<open>nodes.map\<close> rebuilds every node: a node whose id matches gets the new child appended
  (and is not searched further), a node with children is rebuilt around the recursive
  call, a leaf is returned as it is. The object spread \<^verbatim>\<open>{ ...node, children: c }\<close> is
  the node with the same id and title and the children \<open>c\<close>.
\<close>

fun addNode :: "TocNode list \<Rightarrow> string option \<Rightarrow> TocNode \<Rightarrow> TocNode list" where
  "addNode nodes None newNode = nodes @ [newNode]"
| "addNode nodes (Some parentId) newNode =
     map (\<lambda>node.
            if id' node = parentId
            then TocNode (id' node) (title node) (children node @ [newNode])
            else if length (children node) > 0
            then TocNode (id' node) (title node)
                   (addNode (children node) (Some parentId) newNode)
            else node)
         nodes"

text \<open>\<^verbatim>\<open>updateNodeTitle\<close> (lines 82-96).\<close>

fun updateNodeTitle :: "TocNode list \<Rightarrow> string \<Rightarrow> string \<Rightarrow> TocNode list" where
  "updateNodeTitle nodes nodeId newTitle =
     map (\<lambda>node.
            if id' node = nodeId
            then TocNode (id' node) newTitle (children node)
            else if length (children node) > 0
            then TocNode (id' node) (title node)
                   (updateNodeTitle (children node) nodeId newTitle)
            else node)
         nodes"

text \<open>\<^verbatim>\<open>deleteNode\<close> (lines 102-109): \<^verbatim>\<open>filter\<close> at this level, then \<^verbatim>\<open>map\<close> into the children.\<close>

fun deleteNode :: "TocNode list \<Rightarrow> string \<Rightarrow> TocNode list" where
  "deleteNode nodes nodeId =
     map (\<lambda>node. TocNode (id' node) (title node) (deleteNode (children node) nodeId))
         (filter (\<lambda>node. id' node \<noteq> nodeId) nodes)"

text \<open>
  \<^verbatim>\<open>findNode\<close> (lines 118-125): the \<^verbatim>\<open>for\<close> loop returns the first match in document
  order, looking into a node's children before its later siblings.
\<close>

fun findNode :: "TocNode list \<Rightarrow> string \<Rightarrow> TocNode option" where
  "findNode [] i = None"
| "findNode (node # rest) i =
     (if id' node = i then Some node
      else case findNode (children node) i of
             Some foundInChildren \<Rightarrow> Some foundInChildren
           | None \<Rightarrow> findNode rest i)"

text \<open>
  \<^verbatim>\<open>getDescendantIds\<close> (lines 127-134): the loop over \<^verbatim>\<open>node.children\<close> pushes the child's
  id and then appends the child's own descendant ids to the accumulator \<^verbatim>\<open>ids\<close>.
\<close>

fun getDescendantIds :: "TocNode \<Rightarrow> string list" where
  "getDescendantIds (TocNode i t ch) =
     foldl (\<lambda>ids child. (ids @ [id' child]) @ getDescendantIds child) [] ch"

text \<open>
  \<^verbatim>\<open>remove\<close> (lines 145-156) runs on a deep copy of \<^verbatim>\<open>nodes\<close>
  (\<^verbatim>\<open>JSON.parse(JSON.stringify(nodes))\<close>, the identity on values of this type). Its
  \<^verbatim>\<open>filter\<close> callback has two effects, both threaded here: it stores a matching item in
  the captured variable \<^verbatim>\<open>draggedNode\<close> (a later match overwrites an earlier one), and it
  assigns the filtered children back into a kept item. \<^verbatim>\<open>if (item.children)\<close> is true of
  every array, the empty one too, so a kept item is always searched.
\<close>

fun remove_node ::
  "TocNode list \<Rightarrow> string \<Rightarrow> TocNode option \<Rightarrow> TocNode list \<times> TocNode option" where
  "remove_node [] i draggedNode = ([], draggedNode)"
| "remove_node (item # rest) i draggedNode =
     (if id' item = i
      then remove_node rest i (Some item)
      else (case remove_node (children item) i draggedNode of
              (children', draggedNode') \<Rightarrow>
                (case remove_node rest i draggedNode' of
                   (rest', draggedNode'') \<Rightarrow>
                     (TocNode (id' item) (title item) children' # rest', draggedNode''))))"

text \<open>
  \<^verbatim>\<open>insert\<close> (lines 158-168): \<^verbatim>\<open>flatMap\<close> replaces an item whose id is the target by the
  pair of the inserted node and the item, in the order \<^verbatim>\<open>pos\<close> asks for; any other item
  is rebuilt around the recursive call (\<^verbatim>\<open>if (item.children)\<close> is always true, so the
  final \<^verbatim>\<open>return [item]\<close> is never reached).
\<close>

fun insert_node :: "TocNode list \<Rightarrow> string \<Rightarrow> TocNode \<Rightarrow> position \<Rightarrow> TocNode list" where
  "insert_node items tId nodeToInsert pos =
     concat (map (\<lambda>item.
                    if id' item = tId
                    then (if pos = Top then [nodeToInsert, item] else [item, nodeToInsert])
                    else [TocNode (id' item) (title item)
                            (insert_node (children item) tId nodeToInsert pos)])
                 items)"

text \<open>
  The equations of the functions built on \<^verbatim>\<open>map\<close> rewrite every call, the one in
  their own right-hand side too; the simplifier gets equations by cases on the list
  instead (section Unfolding).
\<close>

declare addNode.simps(2) [simp del]
declare updateNodeTitle.simps [simp del]
declare deleteNode.simps [simp del]
declare insert_node.simps [simp del]

text \<open>
  \<^verbatim>\<open>handleMoveNode\<close> (lines 115-176) returns nothing; what it does is one of three things:
  \<^item> \<open>DescendantError\<close>: \<^verbatim>\<open>console.error("Cannot move a node into one of its own
    descendants.")\<close> and \<^verbatim>\<open>return\<close>, without \<^verbatim>\<open>setNodes\<close> (the spec's
    \<^verbatim>\<open>Rejected: DescendantTarget\<close>);
  \<^item> \<open>NoUpdate\<close>: \<^verbatim>\<open>draggedNode\<close> is still \<^verbatim>\<open>null\<close> after \<^verbatim>\<open>remove\<close>, and the handler ends
    without \<^verbatim>\<open>setNodes\<close> and without a message (the only other path that leaves the
    state alone: the spec's \<^verbatim>\<open>Rejected: NotFound\<close>);
  \<^item> \<open>SetNodes t\<close>: \<^verbatim>\<open>setNodes(newTree)\<close> with \<open>t\<close> the new forest.
\<close>

datatype move_result = DescendantError | NoUpdate | SetNodes "TocNode list"

definition handleMoveNode ::
  "TocNode list \<Rightarrow> string \<Rightarrow> string \<Rightarrow> position \<Rightarrow> move_result" where
  "handleMoveNode nodes draggedId targetId pos =
     (if (case findNode nodes draggedId of
            Some foundDraggedNode \<Rightarrow> targetId \<in> set (getDescendantIds foundDraggedNode)
          | None \<Rightarrow> False)
      then DescendantError
      else (case remove_node nodes draggedId None of
              (treeWithoutDragged, draggedNode) \<Rightarrow>
                (case draggedNode of
                   Some d \<Rightarrow> SetNodes (insert_node treeWithoutDragged targetId d pos)
                 | None \<Rightarrow> NoUpdate)))"

text \<open>The React state \<^verbatim>\<open>nodes\<close> once the handler has run.\<close>

fun nodes_after :: "TocNode list \<Rightarrow> move_result \<Rightarrow> TocNode list" where
  "nodes_after nodes (SetNodes newTree) = newTree"
| "nodes_after nodes DescendantError = nodes"
| "nodes_after nodes NoUpdate = nodes"

text \<open>
  \<^verbatim>\<open>handleDrop\<close> of the \<^verbatim>\<open>TreeNode\<close> component, the only caller of \<^verbatim>\<open>onMoveNode\<close>:
  \<^verbatim>\<open>if (draggedId && draggedId !== node.id && dropPosition) onMoveNode(draggedId, node.id, dropPosition)\<close>.
  An empty string is falsy. The result is the state \<^verbatim>\<open>nodes\<close> after the drop (the
  drop indicator and the dragging id, reset afterwards, are view state).
\<close>

definition handleDrop ::
  "TocNode list \<Rightarrow> string \<Rightarrow> TocNode \<Rightarrow> position option \<Rightarrow> TocNode list" where
  "handleDrop nodes draggedId node dropPosition =
     (case dropPosition of
        Some pos \<Rightarrow>
          if draggedId \<noteq> [] \<and> draggedId \<noteq> id' node
          then nodes_after nodes (handleMoveNode nodes draggedId (id' node) pos)
          else nodes
      | None \<Rightarrow> nodes)"

text \<open>
  \<^verbatim>\<open>handleAddChild\<close> (lines 70-80) builds the new node itself: its id is the clock,
  \<^verbatim>\<open>new Date().getTime().toString()\<close>, a parameter here; its title is fixed and it has
  no children. The result is the state \<^verbatim>\<open>nodes\<close> (the set of expanded nodes is view
  state).
\<close>

definition handleAddChild :: "TocNode list \<Rightarrow> string option \<Rightarrow> string \<Rightarrow> TocNode list" where
  "handleAddChild nodes parentId now = addNode nodes parentId (TocNode now ''New Section'' [])"

text \<open>
  The four handlers as operations on the state: \<^verbatim>\<open>handleAddChild\<close> and the button
  "Add Chapter" (\<^verbatim>\<open>setNodes(addNode(...))\<close>; the new node is a parameter here, the
  handler builds it from the clock), \<^verbatim>\<open>handleUpdateTitle\<close>, \<^verbatim>\<open>handleDeleteNode\<close>,
  \<^verbatim>\<open>handleMoveNode\<close>.
\<close>

datatype operation =
    Add "string option" TocNode
  | Rename string string
  | Delete string
  | Move string string position

fun apply_op :: "TocNode list \<Rightarrow> operation \<Rightarrow> TocNode list" where
  "apply_op nodes (Add parentId newNode) = addNode nodes parentId newNode"
| "apply_op nodes (Rename nodeId newTitle) = updateNodeTitle nodes nodeId newTitle"
| "apply_op nodes (Delete nodeId) = deleteNode nodes nodeId"
| "apply_op nodes (Move draggedId targetId pos) =
     nodes_after nodes (handleMoveNode nodes draggedId targetId pos)"

fun run_ops :: "TocNode list \<Rightarrow> operation list \<Rightarrow> TocNode list" where
  "run_ops nodes [] = nodes"
| "run_ops nodes (op # ops) = run_ops (apply_op nodes op) ops"

text \<open>\<^verbatim>\<open>initialData\<close> (lines 5-31), the forest the editor starts with.\<close>

definition initialData :: "TocNode list" where
  "initialData =
     [TocNode ''1'' ''Chapter 1: The Beginning''
        [TocNode ''1-1'' ''The first step'' [],
         TocNode ''1-2'' ''A fork in the road''
           [TocNode ''1-2-1'' ''The left path'' [],
            TocNode ''1-2-2'' ''The right path'' []]],
      TocNode ''2'' ''Chapter 2: The Middle'' [],
      TocNode ''3'' ''Chapter 3: The End'' []]"

section \<open>Vocabulary of the specification\<close>

text \<open>All nodes of a forest, and all ids, in document order (a node before its children).\<close>

fun nodes_of :: "TocNode list \<Rightarrow> TocNode list" where
  "nodes_of [] = []"
| "nodes_of (TocNode i t ch # rest) = TocNode i t ch # nodes_of ch @ nodes_of rest"

definition forest_ids :: "TocNode list \<Rightarrow> string list" where
  "forest_ids forest = map id' (nodes_of forest)"

text \<open>The descendants of a node: everything reachable through \<open>children\<close>, transitively.\<close>

inductive_set descendants :: "TocNode \<Rightarrow> TocNode set" for X :: TocNode where
  child: "c \<in> set (children X) \<Longrightarrow> c \<in> descendants X"
| step: "d \<in> descendants X \<Longrightarrow> c \<in> set (children d) \<Longrightarrow> c \<in> descendants X"

text \<open>
  A forest with one hole in it: the hole stands in some sequence of siblings, at the root
  (\<open>Here left right\<close>) or below a chain of ancestors (\<open>Under left i t c right\<close>: the
  ancestor has id \<open>i\<close> and title \<open>t\<close>, its children are the context \<open>c\<close>).
  \<open>plug c ns\<close> puts the sequence \<open>ns\<close> into the hole. That a node \<open>X\<close> occurs in a forest
  is \<open>forest = plug c [X]\<close>; then \<open>plug c ns\<close> is the same forest with \<open>ns\<close> in the place
  of \<open>X\<close> and nothing else touched.
\<close>

datatype ctx =
    Here "TocNode list" "TocNode list"
  | Under "TocNode list" string string ctx "TocNode list"

fun plug :: "ctx \<Rightarrow> TocNode list \<Rightarrow> TocNode list" where
  "plug (Here left right) ns = left @ ns @ right"
| "plug (Under left i t c right) ns = left @ [TocNode i t (plug c ns)] @ right"

text \<open>The ids of the context alone: siblings, ancestors and their other subtrees.\<close>

fun ctx_ids :: "ctx \<Rightarrow> string list" where
  "ctx_ids (Here left right) = forest_ids left @ forest_ids right"
| "ctx_ids (Under left i t c right) = forest_ids left @ i # ctx_ids c @ forest_ids right"

text \<open>
  Invariant 2 read on identifiers, which is how the program tells nodes apart: no node's
  id is among the ids of its own descendants.
\<close>

definition acyclic_forest :: "TocNode list \<Rightarrow> bool" where
  "acyclic_forest forest =
     (\<forall>X \<in> set (nodes_of forest). id' X \<notin> set (getDescendantIds X))"

text \<open>Invariant 2 read on the nodes themselves: no node of the forest is its own descendant.\<close>

definition no_node_below_itself :: "TocNode list \<Rightarrow> bool" where
  "no_node_below_itself forest = (\<forall>X \<in> set (nodes_of forest). X \<notin> descendants X)"

text \<open>
  A sequence of operations in which every \<open>Add\<close> brings a fresh node: the ids of the new
  node and of whatever it carries below it are pairwise different and none occurs in
  the forest the \<open>Add\<close> is applied to.
\<close>

fun fresh_adds :: "TocNode list \<Rightarrow> operation list \<Rightarrow> bool" where
  "fresh_adds nodes [] = True"
| "fresh_adds nodes (op # ops) =
     ((case op of
         Add parentId newNode \<Rightarrow>
           distinct (forest_ids [newNode]) \<and>
           list_all (\<lambda>i. i \<notin> set (forest_ids nodes)) (forest_ids [newNode])
       | _ \<Rightarrow> True)
      \<and> fresh_adds (apply_op nodes op) ops)"

section \<open>Unfolding\<close>

lemma addNode_Nil [simp]: "addNode [] (Some p) n = []"
  by (simp add: addNode.simps(2) [of "[]"])

lemma addNode_Cons [simp]:
  "addNode (TocNode i t ch # rest) (Some p) n =
     (if i = p then TocNode i t (ch @ [n]) else TocNode i t (addNode ch (Some p) n))
     # addNode rest (Some p) n"
proof -
  have "ch = [] \<Longrightarrow> addNode ch (Some p) n = []"
    by simp
  then show ?thesis
    by (auto simp add: addNode.simps(2) [of "TocNode i t ch # rest"] addNode.simps(2) [of rest])
qed

lemma updateNodeTitle_Nil [simp]: "updateNodeTitle [] x nt = []"
  by (simp add: updateNodeTitle.simps [of "[]"])

lemma updateNodeTitle_Cons [simp]:
  "updateNodeTitle (TocNode i t ch # rest) x nt =
     (if i = x then TocNode i nt ch else TocNode i t (updateNodeTitle ch x nt))
     # updateNodeTitle rest x nt"
proof -
  have "ch = [] \<Longrightarrow> updateNodeTitle ch x nt = []"
    by simp
  then show ?thesis
    by (auto simp add: updateNodeTitle.simps [of "TocNode i t ch # rest"]
          updateNodeTitle.simps [of rest])
qed

lemma deleteNode_Nil [simp]: "deleteNode [] x = []"
  by (simp add: deleteNode.simps [of "[]"])

lemma deleteNode_Cons [simp]:
  "deleteNode (TocNode i t ch # rest) x =
     (if i = x then deleteNode rest x else TocNode i t (deleteNode ch x) # deleteNode rest x)"
  by (simp add: deleteNode.simps [of "TocNode i t ch # rest"] deleteNode.simps [of rest])

lemma insert_node_Nil [simp]: "insert_node [] x d pos = []"
  by (simp add: insert_node.simps [of "[]"])

lemma insert_node_Cons [simp]:
  "insert_node (TocNode i t ch # rest) x d pos =
     (if i = x then (if pos = Top then [d, TocNode i t ch] else [TocNode i t ch, d])
      else [TocNode i t (insert_node ch x d pos)])
     @ insert_node rest x d pos"
  by (simp add: insert_node.simps [of "TocNode i t ch # rest"] insert_node.simps [of rest])

lemma forest_ids_Nil [simp]: "forest_ids [] = []"
  by (simp add: forest_ids_def)

lemma forest_ids_Cons [simp]:
  "forest_ids (TocNode i t ch # rest) = i # forest_ids ch @ forest_ids rest"
  by (simp add: forest_ids_def)

lemma nodes_of_append [simp]: "nodes_of (a @ b) = nodes_of a @ nodes_of b"
  by (induction a rule: nodes_of.induct) simp_all

lemma forest_ids_append [simp]: "forest_ids (a @ b) = forest_ids a @ forest_ids b"
  by (simp add: forest_ids_def)

lemma foldl_push:
  "foldl (\<lambda>ids child. ids @ f child # g child) acc ch
     = acc @ concat (map (\<lambda>child. f child # g child) ch)"
  by (induction ch arbitrary: acc) simp_all

lemma forest_ids_concat:
  "forest_ids ch = concat (map (\<lambda>c. id' c # forest_ids (children c)) ch)"
  by (induction ch rule: nodes_of.induct) simp_all

lemma getDescendantIds_forest_ids: "getDescendantIds X = forest_ids (children X)"
proof (induction X)
  case (TocNode i t ch)
  have "map (\<lambda>c. id' c # getDescendantIds c) ch
          = map (\<lambda>c. id' c # forest_ids (children c)) ch"
    using TocNode.IH by simp
  then have "concat (map (\<lambda>c. id' c # getDescendantIds c) ch)
          = concat (map (\<lambda>c. id' c # forest_ids (children c)) ch)"
    by (rule arg_cong)
  also have "\<dots> = forest_ids ch"
    by (rule forest_ids_concat [symmetric])
  finally show ?case
    by (simp add: foldl_push)
qed

section \<open>Append, absent ids, and the context of a hole\<close>

lemma addNode_append [simp]:
  "addNode (a @ b) (Some p) n = addNode a (Some p) n @ addNode b (Some p) n"
  by (induction a rule: nodes_of.induct) simp_all

lemma updateNodeTitle_append [simp]:
  "updateNodeTitle (a @ b) x nt = updateNodeTitle a x nt @ updateNodeTitle b x nt"
  by (induction a rule: nodes_of.induct) simp_all

lemma deleteNode_append [simp]: "deleteNode (a @ b) x = deleteNode a x @ deleteNode b x"
  by (induction a rule: nodes_of.induct) simp_all

lemma insert_node_append [simp]:
  "insert_node (a @ b) x d pos = insert_node a x d pos @ insert_node b x d pos"
  by (induction a rule: nodes_of.induct) simp_all

lemma addNode_absent: "p \<notin> set (forest_ids f) \<Longrightarrow> addNode f (Some p) n = f"
  by (induction f rule: nodes_of.induct) auto

lemma updateNodeTitle_absent: "x \<notin> set (forest_ids f) \<Longrightarrow> updateNodeTitle f x nt = f"
  by (induction f rule: nodes_of.induct) auto

lemma deleteNode_absent: "x \<notin> set (forest_ids f) \<Longrightarrow> deleteNode f x = f"
  by (induction f rule: nodes_of.induct) auto

lemma insert_node_absent: "x \<notin> set (forest_ids f) \<Longrightarrow> insert_node f x d pos = f"
  by (induction f rule: nodes_of.induct) auto

lemma findNode_Cons [simp]:
  "findNode (TocNode i t ch # rest) x =
     (if i = x then Some (TocNode i t ch)
      else case findNode ch x of Some r \<Rightarrow> Some r | None \<Rightarrow> findNode rest x)"
  by simp

lemma findNode_absent: "x \<notin> set (forest_ids f) \<Longrightarrow> findNode f x = None"
  by (induction f rule: nodes_of.induct) auto

lemma findNode_append:
  "findNode (a @ b) x = (case findNode a x of Some r \<Rightarrow> Some r | None \<Rightarrow> findNode b x)"
  by (induction a rule: nodes_of.induct) (simp_all split: option.splits)

lemma findNode_id: "findNode f x = Some X \<Longrightarrow> id' X = x"
  by (induction f rule: nodes_of.induct) (auto split: if_splits option.splits)

lemma findNode_present: "x \<in> set (forest_ids f) \<Longrightarrow> \<exists>X. findNode f x = Some X"
  by (induction f rule: nodes_of.induct) (auto split: option.splits)

lemma remove_node_Cons [simp]:
  "remove_node (TocNode i t ch # rest) x dn =
     (if i = x then remove_node rest x (Some (TocNode i t ch))
      else (TocNode i t (fst (remove_node ch x dn))
              # fst (remove_node rest x (snd (remove_node ch x dn))),
            snd (remove_node rest x (snd (remove_node ch x dn)))))"
  by (simp split: prod.splits)

declare remove_node.simps(2) [simp del]

lemma fst_remove_node: "fst (remove_node f x dn) = deleteNode f x"
  by (induction f arbitrary: dn rule: nodes_of.induct) simp_all

lemma snd_remove_node_absent: "x \<notin> set (forest_ids f) \<Longrightarrow> snd (remove_node f x dn) = dn"
  by (induction f arbitrary: dn rule: nodes_of.induct) auto

lemma snd_remove_node_append:
  "snd (remove_node (a @ b) x dn) = snd (remove_node b x (snd (remove_node a x dn)))"
  by (induction a arbitrary: dn rule: nodes_of.induct) simp_all

lemma snd_remove_node_present:
  "x \<in> set (forest_ids f) \<Longrightarrow> \<exists>X. snd (remove_node f x dn) = Some X \<and> id' X = x"
proof (induction f arbitrary: dn rule: nodes_of.induct)
  case 1
  then show ?case by simp
next
  case (2 i t ch rest)
  show ?case
  proof (cases "i = x")
    case True
    show ?thesis
    proof (cases "x \<in> set (forest_ids rest)")
      case True
      with "2.IH"(2) \<open>i = x\<close> show ?thesis by simp
    next
      case False
      with \<open>i = x\<close> show ?thesis by (simp add: snd_remove_node_absent)
    qed
  next
    case False
    show ?thesis
    proof (cases "x \<in> set (forest_ids rest)")
      case True
      with "2.IH"(2) False show ?thesis by simp
    next
      case False
      with \<open>i \<noteq> x\<close> "2.prems" have "x \<in> set (forest_ids ch)" by simp
      with "2.IH"(1) False \<open>i \<noteq> x\<close> show ?thesis by (simp add: snd_remove_node_absent)
    qed
  qed
qed

lemma mset_plug:
  "mset (forest_ids (plug c ns)) = mset (ctx_ids c) + mset (forest_ids ns)"
  by (induction c) simp_all

lemma set_plug: "set (forest_ids (plug c ns)) = set (ctx_ids c) \<union> set (forest_ids ns)"
  by (induction c) auto

lemma count_list_mset: "count_list xs x = count (mset xs) x"
  by (induction xs) simp_all

lemma once_in_plug:
  assumes "count_list (forest_ids (plug c [X])) (id' X) = 1"
  shows "id' X \<notin> set (ctx_ids c)" and "id' X \<notin> set (forest_ids (children X))"
proof -
  have "count (mset (ctx_ids c)) (id' X) + count (mset (forest_ids [X])) (id' X) = 1"
    using assms by (simp add: count_list_mset mset_plug)
  moreover have "count (mset (forest_ids [X])) (id' X)
                   = 1 + count (mset (forest_ids (children X))) (id' X)"
    by (cases X) simp
  ultimately have "count (mset (ctx_ids c)) (id' X) = 0"
    and "count (mset (forest_ids (children X))) (id' X) = 0"
    by simp_all
  then show "id' X \<notin> set (ctx_ids c)" and "id' X \<notin> set (forest_ids (children X))"
    by (simp_all add: count_eq_zero_iff)
qed

text \<open>An operation that works sequence by sequence leaves the context of a hole alone.\<close>

lemma plug_local:
  assumes app: "\<And>a b. F (a @ b) = F a @ F b"
    and node: "\<And>i t ch. i \<noteq> x \<Longrightarrow> F [TocNode i t ch] = [TocNode i t (F ch)]"
    and absent: "\<And>l. x \<notin> set (forest_ids l) \<Longrightarrow> F l = l"
    and ctx: "x \<notin> set (ctx_ids c)"
  shows "F (plug c ns) = plug c (F ns)"
  using ctx
proof (induction c)
  case (Here left right)
  then show ?case by (simp add: app absent)
next
  case (Under left i t c right)
  then have "i \<noteq> x" and "F (plug c ns) = plug c (F ns)"
    by auto
  then have "F [TocNode i t (plug c ns)] = [TocNode i t (plug c (F ns))]"
    by (simp add: node)
  moreover have "F (left @ [TocNode i t (plug c ns)] @ right)
      = F left @ F [TocNode i t (plug c ns)] @ F right"
    by (simp only: app)
  ultimately show ?case
    using Under.prems by (simp add: absent)
qed

lemma deleteNode_plug:
  "x \<notin> set (ctx_ids c) \<Longrightarrow> deleteNode (plug c ns) x = plug c (deleteNode ns x)"
  by (rule plug_local [where F = "\<lambda>l. deleteNode l x"]) (simp_all add: deleteNode_absent)

lemma updateNodeTitle_plug:
  "x \<notin> set (ctx_ids c) \<Longrightarrow>
     updateNodeTitle (plug c ns) x nt = plug c (updateNodeTitle ns x nt)"
  by (rule plug_local [where F = "\<lambda>l. updateNodeTitle l x nt"])
     (simp_all add: updateNodeTitle_absent)

lemma addNode_plug:
  "p \<notin> set (ctx_ids c) \<Longrightarrow>
     addNode (plug c ns) (Some p) n = plug c (addNode ns (Some p) n)"
  by (rule plug_local [where F = "\<lambda>l. addNode l (Some p) n"]) (simp_all add: addNode_absent)

lemma insert_node_plug:
  "x \<notin> set (ctx_ids c) \<Longrightarrow>
     insert_node (plug c ns) x d pos = plug c (insert_node ns x d pos)"
  by (rule plug_local [where F = "\<lambda>l. insert_node l x d pos"])
     (simp_all add: insert_node_absent)

lemma findNode_plug:
  "x \<notin> set (ctx_ids c) \<Longrightarrow> findNode (plug c ns) x = findNode ns x"
proof (induction c)
  case (Here left right)
  then show ?case
    by (simp add: findNode_append findNode_absent split: option.splits)
next
  case (Under left i t c right)
  then show ?case
    by (auto simp add: findNode_append findNode_absent split: option.splits)
qed

lemma snd_remove_node_plug:
  "x \<notin> set (ctx_ids c) \<Longrightarrow>
     snd (remove_node (plug c ns) x dn) = snd (remove_node ns x dn)"
proof (induction c)
  case (Here left right)
  then show ?case
    by (simp add: snd_remove_node_append snd_remove_node_absent)
next
  case (Under left i t c right)
  then show ?case
    by (auto simp add: snd_remove_node_append snd_remove_node_absent)
qed

section \<open>Occurrences and descendants\<close>

lemma ctx_cons: "\<exists>c'. \<forall>ns. plug c' ns = n # plug c ns"
proof (cases c)
  case (Here left right)
  then have "\<forall>ns. plug (Here (n # left) right) ns = n # plug c ns" by simp
  then show ?thesis ..
next
  case (Under left i t c0 right)
  then have "\<forall>ns. plug (Under (n # left) i t c0 right) ns = n # plug c ns" by simp
  then show ?thesis ..
qed

lemma node_occurs: "X \<in> set (nodes_of f) \<Longrightarrow> \<exists>c. f = plug c [X]"
proof (induction f rule: nodes_of.induct)
  case 1
  then show ?case by simp
next
  case (2 i t ch rest)
  from "2.prems" consider "X = TocNode i t ch" | "X \<in> set (nodes_of ch)"
    | "X \<in> set (nodes_of rest)"
    by auto
  then show ?case
  proof cases
    case 1
    then have "TocNode i t ch # rest = plug (Here [] rest) [X]" by simp
    then show ?thesis ..
  next
    case 2
    with "2.IH"(1) obtain c where "ch = plug c [X]" by blast
    then have "TocNode i t ch # rest = plug (Under [] i t c rest) [X]" by simp
    then show ?thesis ..
  next
    case 3
    with "2.IH"(2) obtain c where c: "rest = plug c [X]" by blast
    obtain c' where "\<forall>ns. plug c' ns = TocNode i t ch # plug c ns"
      using ctx_cons by blast
    with c have "TocNode i t ch # rest = plug c' [X]" by simp
    then show ?thesis ..
  qed
qed

lemma id_occurs: "x \<in> set (forest_ids f) \<Longrightarrow> \<exists>c X. f = plug c [X] \<and> id' X = x"
proof -
  assume "x \<in> set (forest_ids f)"
  then obtain X where "X \<in> set (nodes_of f)" and "id' X = x"
    by (auto simp: forest_ids_def)
  then show ?thesis
    using node_occurs by blast
qed

lemma roots_in_nodes_of: "set l \<subseteq> set (nodes_of l)"
  by (induction l rule: nodes_of.induct) auto

lemma nodes_of_children: "d \<in> set (nodes_of l) \<Longrightarrow> set (nodes_of (children d)) \<subseteq> set (nodes_of l)"
  by (induction l rule: nodes_of.induct) auto

lemma nodes_of_descend:
  "n \<in> set (nodes_of l) \<Longrightarrow> set l \<subseteq> descendants X \<Longrightarrow> n \<in> descendants X"
proof (induction l rule: nodes_of.induct)
  case 1
  then show ?case by simp
next
  case (2 i t ch rest)
  from "2.prems"(2) have top: "TocNode i t ch \<in> descendants X" and rest: "set rest \<subseteq> descendants X"
    by auto
  have "set ch \<subseteq> descendants X"
  proof
    fix c assume "c \<in> set ch"
    then have "c \<in> set (children (TocNode i t ch))" by simp
    with top show "c \<in> descendants X" by (rule descendants.step)
  qed
  with "2.IH" "2.prems"(1) top rest show ?case by auto
qed

lemma descendants_nodes_of: "descendants X = set (nodes_of (children X))"
proof
  show "descendants X \<subseteq> set (nodes_of (children X))"
  proof
    fix d assume "d \<in> descendants X"
    then show "d \<in> set (nodes_of (children X))"
    proof (induction rule: descendants.induct)
      case (child c)
      then show ?case using roots_in_nodes_of by blast
    next
      case (step d c)
      then show ?case using roots_in_nodes_of nodes_of_children by blast
    qed
  qed
next
  have "set (children X) \<subseteq> descendants X"
    by (auto intro: descendants.child)
  then show "set (nodes_of (children X)) \<subseteq> descendants X"
    using nodes_of_descend by blast
qed

lemma descendant_ids: "set (getDescendantIds X) = id' ` descendants X"
  by (simp add: getDescendantIds_forest_ids descendants_nodes_of forest_ids_def)

lemma deleteNode_self: "deleteNode [X] (id' X) = []"
  by (cases X) simp

lemma mset_forest_ids_single:
  "mset (forest_ids [X]) = add_mset (id' X) (mset (getDescendantIds X))"
  by (cases X) (simp add: getDescendantIds_forest_ids)

section \<open>Identifiers after an add\<close>

lemma addNode_ids_grow: "mset (forest_ids f) \<subseteq># mset (forest_ids (addNode f (Some p) n))"
proof (induction f rule: nodes_of.induct)
  case 1
  then show ?case by simp
next
  case (2 i t ch rest)
  let ?r = "addNode rest (Some p) n" and ?c = "addNode ch (Some p) n"
  show ?case
  proof (cases "i = p")
    case True
    have "mset (forest_ids ch) + mset (forest_ids rest)
            \<subseteq># mset (forest_ids ch) + mset (forest_ids ?r)"
      using "2.IH"(2) by (simp add: subset_mset.add_mono)
    also have "\<dots> \<subseteq># mset (forest_ids [n]) + (mset (forest_ids ch) + mset (forest_ids ?r))"
      by (rule mset_subset_eq_add_right)
    finally show ?thesis
      using True by (simp add: ac_simps)
  next
    case False
    have "mset (forest_ids ch) + mset (forest_ids rest)
            \<subseteq># mset (forest_ids ?c) + mset (forest_ids ?r)"
      using "2.IH" by (rule subset_mset.add_mono)
    with False show ?thesis by simp
  qed
qed

lemma addNode_ids_present:
  "p \<in> set (forest_ids f) \<Longrightarrow>
     mset (forest_ids f) + mset (forest_ids [n]) \<subseteq># mset (forest_ids (addNode f (Some p) n))"
proof (induction f rule: nodes_of.induct)
  case 1
  then show ?case by simp
next
  case (2 i t ch rest)
  let ?r = "addNode rest (Some p) n" and ?c = "addNode ch (Some p) n"
  have gr: "mset (forest_ids rest) \<subseteq># mset (forest_ids ?r)"
    and gc: "mset (forest_ids ch) \<subseteq># mset (forest_ids ?c)"
    by (rule addNode_ids_grow)+
  show ?case
  proof (cases "i = p")
    case True
    have "mset (forest_ids ch) + mset (forest_ids [n]) + mset (forest_ids rest)
            \<subseteq># mset (forest_ids ch) + mset (forest_ids [n]) + mset (forest_ids ?r)"
      using gr by (simp add: subset_mset.add_mono)
    with True show ?thesis by (simp add: ac_simps)
  next
    case False
    show ?thesis
    proof (cases "p \<in> set (forest_ids ch)")
      case True
      with "2.IH"(1) have "mset (forest_ids ch) + mset (forest_ids [n]) \<subseteq># mset (forest_ids ?c)"
        by simp
      with gr have "(mset (forest_ids ch) + mset (forest_ids [n])) + mset (forest_ids rest)
                      \<subseteq># mset (forest_ids ?c) + mset (forest_ids ?r)"
        by (rule subset_mset.add_mono [rotated])
      with False show ?thesis by (simp add: ac_simps)
    next
      case notch: False
      with False "2.prems" have "p \<in> set (forest_ids rest)" by simp
      with "2.IH"(2) have "mset (forest_ids rest) + mset (forest_ids [n]) \<subseteq># mset (forest_ids ?r)"
        by simp
      with gc have "mset (forest_ids ch) + (mset (forest_ids rest) + mset (forest_ids [n]))
                      \<subseteq># mset (forest_ids ?c) + mset (forest_ids ?r)"
        by (rule subset_mset.add_mono)
      with False show ?thesis by (simp add: ac_simps)
    qed
  qed
qed

lemma count_single_self: "1 \<le> count (mset (forest_ids [n])) (id' n)"
  by (cases n) simp

lemma once_if_distinct: "distinct xs \<Longrightarrow> x \<in> set xs \<Longrightarrow> count_list xs x = 1"
  by (simp add: count_list_mset distinct_count_atmost_1)

lemma addNode_ids_distinct:
  assumes "distinct (forest_ids f)" and "p \<in> set (forest_ids f)"
  shows "mset (forest_ids (addNode f (Some p) n)) = mset (forest_ids f) + mset (forest_ids [n])"
proof -
  obtain c P where f: "f = plug c [P]" and p: "id' P = p"
    using assms(2) id_occurs by blast
  have "count_list (forest_ids (plug c [P])) (id' P) = 1"
    using assms f p by (simp add: once_if_distinct)
  then have "id' P \<notin> set (ctx_ids c)"
    by (rule once_in_plug(1))
  then have "addNode f (Some p) n = plug c (addNode [P] (Some (id' P)) n)"
    using f p by (simp add: addNode_plug)
  moreover have "addNode [P] (Some (id' P)) n = [TocNode (id' P) (title P) (children P @ [n])]"
    by (cases P) simp
  moreover have "mset (forest_ids [TocNode (id' P) (title P) (children P @ [n])])
                   = mset (forest_ids [P]) + mset (forest_ids [n])"
    by (cases P) simp
  ultimately show ?thesis
    using f by (simp add: mset_plug)
qed

text \<open>Two sections added within the same millisecond carry the same id.\<close>

lemma handleAddChild_same_clock:
  "\<not> distinct (forest_ids (handleAddChild (handleAddChild nodes None now) None now))"
  by (simp add: handleAddChild_def)

section \<open>The move\<close>

lemma findNode_occurrence:
  "id' X \<notin> set (ctx_ids c) \<Longrightarrow> findNode (plug c [X]) (id' X) = Some X"
  by (simp add: findNode_plug)

lemma remove_node_occurrence:
  assumes "id' X \<notin> set (ctx_ids c)"
  shows "remove_node (plug c [X]) (id' X) None = (plug c [], Some X)"
proof -
  have "fst (remove_node (plug c [X]) (id' X) None) = plug c []"
    using assms by (simp add: fst_remove_node deleteNode_plug deleteNode_self)
  moreover have "snd (remove_node [X] (id' X) None) = Some X"
    by (cases X) simp
  then have "snd (remove_node (plug c [X]) (id' X) None) = Some X"
    using assms by (simp add: snd_remove_node_plug)
  ultimately show ?thesis
    by (simp add: prod_eq_iff)
qed

lemma move_dragged_absent:
  "d \<notin> set (forest_ids f) \<Longrightarrow> handleMoveNode f d t pos = NoUpdate"
proof -
  assume a: "d \<notin> set (forest_ids f)"
  then have "remove_node f d None = (f, None)"
    by (simp add: prod_eq_iff fst_remove_node deleteNode_absent snd_remove_node_absent)
  with a show ?thesis
    by (simp add: handleMoveNode_def findNode_absent)
qed

lemma move_accepted:
  assumes "id' X \<notin> set (ctx_ids c)" and "t \<notin> set (getDescendantIds X)"
  shows "handleMoveNode (plug c [X]) (id' X) t pos
           = SetNodes (insert_node (plug c []) t X pos)"
  using assms
  by (simp add: handleMoveNode_def findNode_occurrence remove_node_occurrence)

lemma move_target_gone:
  assumes "id' X \<notin> set (ctx_ids c)" and "t \<notin> set (getDescendantIds X)"
    and "t \<notin> set (ctx_ids c)"
  shows "handleMoveNode (plug c [X]) (id' X) t pos = SetNodes (plug c [])"
proof -
  have "t \<notin> set (forest_ids (plug c []))"
    using assms(3) by (simp add: set_plug)
  then show ?thesis
    using assms(1,2) by (simp add: move_accepted insert_node_absent)
qed

lemma insert_node_self:
  "insert_node [T] (id' T) X pos = (if pos = Top then [X, T] else [T, X])"
  by (cases T) simp

section \<open>Identifiers stay pairwise different\<close>

lemma updateNodeTitle_ids [simp]: "forest_ids (updateNodeTitle f x nt) = forest_ids f"
  by (induction f rule: nodes_of.induct) simp_all

lemma deleteNode_ids_sub: "mset (forest_ids (deleteNode f x)) \<subseteq># mset (forest_ids f)"
proof (induction f rule: nodes_of.induct)
  case 1
  then show ?case by simp
next
  case (2 i t ch rest)
  have both: "mset (forest_ids (deleteNode ch x)) + mset (forest_ids (deleteNode rest x))
          \<subseteq># mset (forest_ids ch) + mset (forest_ids rest)"
    using "2.IH" by (rule subset_mset.add_mono)
  show ?case
  proof (cases "i = x")
    case True
    have "mset (forest_ids (deleteNode rest x)) \<subseteq># mset (forest_ids rest)"
      by (rule "2.IH"(2))
    also have "\<dots> \<subseteq># add_mset i (mset (forest_ids ch)) + mset (forest_ids rest)"
      by (rule mset_subset_eq_add_right)
    finally show ?thesis
      using True by simp
  next
    case False
    with both show ?thesis by simp
  qed
qed

lemma distinct_sub: "mset xs \<subseteq># mset ys \<Longrightarrow> distinct ys \<Longrightarrow> distinct xs"
proof -
  assume sub: "mset xs \<subseteq># mset ys" and d: "distinct ys"
  have "count (mset xs) a = (if a \<in> set xs then 1 else 0)" for a
  proof (cases "a \<in> set xs")
    case True
    then have "1 \<le> count (mset xs) a"
      by (simp add: Suc_le_eq)
    moreover have "count (mset xs) a \<le> count (mset ys) a"
      using sub by (rule mset_subset_eq_count)
    moreover have "count (mset ys) a \<le> 1"
      using d by (simp add: distinct_count_atmost_1)
    ultimately have "count (mset xs) a = 1"
      by arith
    with True show ?thesis by simp
  next
    case False
    then show ?thesis by (simp add: count_eq_zero_iff)
  qed
  then show "distinct xs"
    by (simp add: distinct_count_atmost_1)
qed

lemma distinct_same_ids: "mset xs = mset ys \<Longrightarrow> distinct ys \<Longrightarrow> distinct xs"
  using mset_eq_imp_distinct_iff by blast

lemma addNode_distinct:
  assumes "distinct (forest_ids f)" and "distinct (forest_ids [n])"
    and "set (forest_ids [n]) \<inter> set (forest_ids f) = {}"
  shows "distinct (forest_ids (addNode f parentId n))"
proof (cases parentId)
  case None
  with assms show ?thesis by auto
next
  case (Some p)
  show ?thesis
  proof (cases "p \<in> set (forest_ids f)")
    case True
    with assms(1) have "mset (forest_ids (addNode f (Some p) n))
                          = mset (forest_ids f @ forest_ids [n])"
      by (simp add: addNode_ids_distinct)
    moreover have "distinct (forest_ids f @ forest_ids [n])"
      using assms by auto
    ultimately show ?thesis
      using Some distinct_same_ids by blast
  next
    case False
    with Some assms(1) show ?thesis by (simp add: addNode_absent)
  qed
qed

lemma mset_forest_ids_pair:
  "mset (forest_ids [a, b]) = mset (forest_ids [a]) + mset (forest_ids [b])"
  using forest_ids_append [of "[a]" "[b]"] by simp

lemma deleteNode_distinct: "distinct (forest_ids f) \<Longrightarrow> distinct (forest_ids (deleteNode f x))"
  using deleteNode_ids_sub distinct_sub by blast

text \<open>
  What a move does to a forest with pairwise different ids, whatever the two ids are: it
  leaves the forest alone, or it drops the dragged subtree, or it moves it.
\<close>

lemma move_cases:
  assumes d: "distinct (forest_ids f)"
  shows "nodes_after f (handleMoveNode f dr t pos) = f \<or>
         nodes_after f (handleMoveNode f dr t pos) = deleteNode f dr \<or>
         mset (forest_ids (nodes_after f (handleMoveNode f dr t pos))) = mset (forest_ids f)"
proof (cases "dr \<in> set (forest_ids f)")
  case False
  then show ?thesis by (simp add: move_dragged_absent)
next
  case True
  then obtain c X where f: "f = plug c [X]" and "id' X = dr"
    using id_occurs by blast
  then have X: "dr = id' X"
    by simp
  have "count_list (forest_ids (plug c [X])) (id' X) = 1"
    using d f X True by (simp add: once_if_distinct)
  then have ctx: "id' X \<notin> set (ctx_ids c)"
    by (rule once_in_plug(1))
  have del: "deleteNode f dr = plug c []"
    using f X ctx by (simp add: deleteNode_plug deleteNode_self)
  show ?thesis
  proof (cases "t \<in> set (getDescendantIds X)")
    case True
    then have "handleMoveNode f dr t pos = DescendantError"
      using f X ctx by (simp add: handleMoveNode_def findNode_occurrence)
    then show ?thesis by simp
  next
    case notdesc: False
    then have acc: "handleMoveNode f dr t pos = SetNodes (insert_node (plug c []) t X pos)"
      using f X ctx move_accepted by blast
    show ?thesis
    proof (cases "t \<in> set (forest_ids (plug c []))")
      case False
      then show ?thesis
        using acc del by (simp add: insert_node_absent)
    next
      case True
      then obtain c' T where dec: "plug c [] = plug c' [T]" and T: "id' T = t"
        using id_occurs by blast
      have "distinct (forest_ids (plug c []))"
        using d del deleteNode_distinct [of f dr] by simp
      then have "count_list (forest_ids (plug c' [T])) (id' T) = 1"
        using True dec T by (simp add: once_if_distinct)
      then have "id' T \<notin> set (ctx_ids c')"
        by (rule once_in_plug(1))
      then have "insert_node (plug c' [T]) (id' T) X pos = plug c' (insert_node [T] (id' T) X pos)"
        by (rule insert_node_plug)
      then have ins: "insert_node (plug c []) t X pos
                   = plug c' (if pos = Top then [X, T] else [T, X])"
        unfolding insert_node_self using dec T by simp
      have "mset (forest_ids (plug c' (if pos = Top then [X, T] else [T, X])))
              = mset (forest_ids (plug c' [T])) + mset (forest_ids [X])"
        by (simp add: mset_plug mset_forest_ids_pair)
      also have "\<dots> = mset (forest_ids (plug c [])) + mset (forest_ids [X])"
        using dec by simp
      also have "\<dots> = mset (forest_ids f)"
        using f by (simp add: mset_plug)
      finally show ?thesis
        using acc ins by simp
    qed
  qed
qed

lemma move_distinct:
  assumes "distinct (forest_ids f)"
  shows "distinct (forest_ids (nodes_after f (handleMoveNode f dr t pos)))"
  using move_cases [OF assms, of dr t pos] assms
  by (auto simp: deleteNode_distinct intro: distinct_same_ids)

lemma acyclic_if_distinct:
  assumes "distinct (forest_ids f)"
  shows "acyclic_forest f"
  unfolding acyclic_forest_def
proof
  fix X assume X: "X \<in> set (nodes_of f)"
  then obtain c where f: "f = plug c [X]"
    using node_occurs by blast
  have "id' X \<in> set (forest_ids f)"
    using X by (simp add: forest_ids_def)
  then have "count_list (forest_ids (plug c [X])) (id' X) = 1"
    using assms f by (simp add: once_if_distinct)
  then have "id' X \<notin> set (forest_ids (children X))"
    by (rule once_in_plug(2))
  then show "id' X \<notin> set (getDescendantIds X)"
    by (simp add: getDescendantIds_forest_ids)
qed

lemma acyclic_no_node_below_itself: "acyclic_forest f \<Longrightarrow> no_node_below_itself f"
  unfolding acyclic_forest_def no_node_below_itself_def descendant_ids
  by blast

lemma run_ops_distinct:
  "distinct (forest_ids f) \<Longrightarrow> fresh_adds f ops \<Longrightarrow> distinct (forest_ids (run_ops f ops))"
proof (induction ops arbitrary: f)
  case Nil
  then show ?case by simp
next
  case (Cons op ops)
  have "distinct (forest_ids (apply_op f op))"
  proof (cases op)
    case (Add parentId newNode)
    with Cons.prems have "distinct (forest_ids [newNode])"
      and "set (forest_ids [newNode]) \<inter> set (forest_ids f) = {}"
      by (auto simp: list_all_iff)
    with Cons.prems(1) Add show ?thesis
      by (simp add: addNode_distinct)
  next
    case (Rename nodeId newTitle)
    with Cons.prems(1) show ?thesis by simp
  next
    case (Delete nodeId)
    with Cons.prems(1) show ?thesis by (simp add: deleteNode_distinct)
  next
    case (Move draggedId targetId pos)
    with Cons.prems(1) show ?thesis by (simp add: move_distinct)
  qed
  moreover have "fresh_adds (apply_op f op) ops"
    using Cons.prems(2) by simp
  ultimately show ?case
    using Cons.IH by simp
qed

section \<open>The claims\<close>

text \<open>
  Claim C1 (a move with an id that cannot be found leaves the forest alone). When the
  dragged id is absent the handler ends without \<^verbatim>\<open>setNodes\<close> (\<open>move_dragged_absent\<close>
  above). When the dragged id is present and the target id is absent it does not: on
  \<^verbatim>\<open>initialData\<close>, dragging \<^verbatim>\<open>2\<close> onto the unknown id \<^verbatim>\<open>4\<close> calls \<^verbatim>\<open>setNodes\<close> with the
  forest from which \<^verbatim>\<open>2\<close> has been removed and into which it has not been put back.
  \<open>move_target_gone\<close> above is the same fact for every forest.
\<close>

theorem move_to_missing_target_loses_node:
  "''2'' \<in> set (forest_ids initialData) \<and> ''4'' \<notin> set (forest_ids initialData) \<and>
   handleMoveNode initialData ''2'' ''4'' Top
     = SetNodes
         [TocNode ''1'' ''Chapter 1: The Beginning''
            [TocNode ''1-1'' ''The first step'' [],
             TocNode ''1-2'' ''A fork in the road''
               [TocNode ''1-2-1'' ''The left path'' [],
                TocNode ''1-2-2'' ''The right path'' []]],
          TocNode ''3'' ''Chapter 3: The End'' []] \<and>
   nodes_after initialData (handleMoveNode initialData ''2'' ''4'' Top) \<noteq> initialData"
  by (simp add: initialData_def handleMoveNode_def)

text \<open>
  Claim C2, as amended (a node dropped on itself). The self-target is turned away by the
  drop handler, not by \<^verbatim>\<open>handleMoveNode\<close>: for every forest, every node and every drop
  position, \<^verbatim>\<open>handleDrop\<close> with the dragged id equal to the id of the node dropped on
  does not call the move, and the state is the forest it was.
\<close>

theorem drop_on_itself_is_ignored:
  "handleDrop nodes (id' node) node dropPosition = nodes"
  by (simp add: handleDrop_def split: option.splits)

text \<open>
  Claim C2 as stated fails for \<^verbatim>\<open>handleMoveNode\<close> itself, which has no check of
  \<^verbatim>\<open>draggedId === targetId\<close>: called on \<^verbatim>\<open>initialData\<close> with \<^verbatim>\<open>2\<close> as both ids it removes
  the node, finds no target left to insert it at, and sets the state to the forest
  without it.
\<close>

theorem move_onto_itself_counterexample:
  "handleMoveNode initialData ''2'' ''2'' Top
     = SetNodes
         [TocNode ''1'' ''Chapter 1: The Beginning''
            [TocNode ''1-1'' ''The first step'' [],
             TocNode ''1-2'' ''A fork in the road''
               [TocNode ''1-2-1'' ''The left path'' [],
                TocNode ''1-2-2'' ''The right path'' []]],
          TocNode ''3'' ''Chapter 3: The End'' []] \<and>
   nodes_after initialData (handleMoveNode initialData ''2'' ''2'' Top) \<noteq> initialData"
  by (simp add: initialData_def handleMoveNode_def)

text \<open>
  Claim C3 (no move into the own subtree). Let \<open>X\<close> occur in the forest, let its id
  name that node only (Invariant 1, for this id), and let \<open>D\<close> be a descendant of \<open>X\<close>,
  at any depth. Then \<^verbatim>\<open>handleMoveNode\<close> with the id of \<open>X\<close> as dragged id and the id of \<open>D\<close>
  as target logs the error and returns without \<^verbatim>\<open>setNodes\<close>, for both positions; the
  state is the forest it was.
\<close>

theorem move_into_descendant_rejected:
  assumes "forest = plug c [X]"
    and "count_list (forest_ids forest) (id' X) = 1"
    and "D \<in> descendants X"
  shows "handleMoveNode forest (id' X) (id' D) pos = DescendantError \<and>
         nodes_after forest (handleMoveNode forest (id' X) (id' D) pos) = forest"
proof -
  have "id' X \<notin> set (ctx_ids c)"
    using assms(1,2) once_in_plug(1) by simp
  then have "findNode forest (id' X) = Some X"
    using assms(1) by (simp add: findNode_occurrence)
  moreover have "id' D \<in> set (getDescendantIds X)"
    using assms(3) by (simp add: descendant_ids)
  ultimately have "handleMoveNode forest (id' X) (id' D) pos = DescendantError"
    by (simp add: handleMoveNode_def)
  then show ?thesis by simp
qed

text \<open>The theorem at work on \<^verbatim>\<open>initialData\<close>: chapter \<^verbatim>\<open>1\<close> dragged onto its grandchild \<^verbatim>\<open>1-2-1\<close>.\<close>

theorem move_into_descendant_rejected_witness:
  "initialData
     = plug (Here [] [TocNode ''2'' ''Chapter 2: The Middle'' [],
                      TocNode ''3'' ''Chapter 3: The End'' []])
            [TocNode ''1'' ''Chapter 1: The Beginning''
               [TocNode ''1-1'' ''The first step'' [],
                TocNode ''1-2'' ''A fork in the road''
                  [TocNode ''1-2-1'' ''The left path'' [],
                   TocNode ''1-2-2'' ''The right path'' []]]] \<and>
   count_list (forest_ids initialData) ''1'' = 1 \<and>
   TocNode ''1-2-1'' ''The left path'' []
     \<in> descendants (TocNode ''1'' ''Chapter 1: The Beginning''
               [TocNode ''1-1'' ''The first step'' [],
                TocNode ''1-2'' ''A fork in the road''
                  [TocNode ''1-2-1'' ''The left path'' [],
                   TocNode ''1-2-2'' ''The right path'' []]]) \<and>
   handleMoveNode initialData ''1'' ''1-2-1'' Bottom = DescendantError \<and>
   nodes_after initialData (handleMoveNode initialData ''1'' ''1-2-1'' Bottom) = initialData"
proof -
  let ?c = "Here [] [TocNode ''2'' ''Chapter 2: The Middle'' [],
                     TocNode ''3'' ''Chapter 3: The End'' []]"
  let ?X = "TocNode ''1'' ''Chapter 1: The Beginning''
               [TocNode ''1-1'' ''The first step'' [],
                TocNode ''1-2'' ''A fork in the road''
                  [TocNode ''1-2-1'' ''The left path'' [],
                   TocNode ''1-2-2'' ''The right path'' []]]"
  let ?D = "TocNode ''1-2-1'' ''The left path'' []"
  have h1: "initialData = plug ?c [?X]"
    by (simp add: initialData_def)
  have h2: "count_list (forest_ids initialData) (id' ?X) = 1"
    by (simp add: initialData_def)
  have h3: "?D \<in> descendants ?X"
    by (simp add: descendants_nodes_of)
  have "handleMoveNode initialData (id' ?X) (id' ?D) Bottom = DescendantError \<and>
        nodes_after initialData (handleMoveNode initialData (id' ?X) (id' ?D) Bottom)
          = initialData"
    using h1 h2 h3 by (rule move_into_descendant_rejected)
  with h1 h2 h3 show ?thesis by simp
qed

text \<open>
  Claim C4 (acyclicity). Start from a forest whose ids are pairwise different
  (Invariant 1, which gives Invariant 2) and run any sequence of add, rename, delete and
  move in which every added node is fresh. Then no node of the resulting forest has its
  own id among the ids of its descendants (\<open>acyclic_forest\<close>: the program tells nodes
  apart by their ids), hence no node is reachable from itself through \<open>children\<close>
  (\<open>no_node_below_itself\<close>), and the ids are still pairwise different.
\<close>

theorem operations_keep_forest_acyclic:
  assumes "distinct (forest_ids forest)" and "fresh_adds forest ops"
  shows "acyclic_forest (run_ops forest ops) \<and>
         no_node_below_itself (run_ops forest ops) \<and>
         distinct (forest_ids (run_ops forest ops))"
  using assms
  by (simp add: run_ops_distinct acyclic_if_distinct acyclic_no_node_below_itself)

text \<open>The theorem at work on \<^verbatim>\<open>initialData\<close> and six operations, among them a move that is
  turned away (\<^verbatim>\<open>1\<close> onto its descendant \<^verbatim>\<open>4\<close>) and one that is carried out.\<close>

theorem operations_keep_forest_acyclic_witness:
  "distinct (forest_ids initialData) \<and>
   fresh_adds initialData
     [Add (Some ''1-1'') (TocNode ''4'' ''New Section'' []),
      Rename ''4'' ''Prologue'',
      Move ''1'' ''4'' Top,
      Move ''1-2'' ''3'' Bottom,
      Delete ''2'',
      Add None (TocNode ''5'' ''New Section'' [])] \<and>
   acyclic_forest (run_ops initialData
     [Add (Some ''1-1'') (TocNode ''4'' ''New Section'' []),
      Rename ''4'' ''Prologue'',
      Move ''1'' ''4'' Top,
      Move ''1-2'' ''3'' Bottom,
      Delete ''2'',
      Add None (TocNode ''5'' ''New Section'' [])]) \<and>
   no_node_below_itself (run_ops initialData
     [Add (Some ''1-1'') (TocNode ''4'' ''New Section'' []),
      Rename ''4'' ''Prologue'',
      Move ''1'' ''4'' Top,
      Move ''1-2'' ''3'' Bottom,
      Delete ''2'',
      Add None (TocNode ''5'' ''New Section'' [])]) \<and>
   distinct (forest_ids (run_ops initialData
     [Add (Some ''1-1'') (TocNode ''4'' ''New Section'' []),
      Rename ''4'' ''Prologue'',
      Move ''1'' ''4'' Top,
      Move ''1-2'' ''3'' Bottom,
      Delete ''2'',
      Add None (TocNode ''5'' ''New Section'' [])]))"
proof -
  let ?ops = "[Add (Some ''1-1'') (TocNode ''4'' ''New Section'' []),
      Rename ''4'' ''Prologue'',
      Move ''1'' ''4'' Top,
      Move ''1-2'' ''3'' Bottom,
      Delete ''2'',
      Add None (TocNode ''5'' ''New Section'' [])]"
  have h1: "distinct (forest_ids initialData)"
    by (simp add: initialData_def)
  have h2: "fresh_adds initialData ?ops"
    by (simp add: initialData_def handleMoveNode_def)
  show ?thesis
    using h1 h2 operations_keep_forest_acyclic [OF h1 h2] by simp
qed

text \<open>
  Claim C5 (an accepted move). Let the dragged node \<open>X\<close> occur in the forest, let the
  ids of \<open>X\<close> and of the target each name one node, and let the target be neither \<open>X\<close>
  nor a descendant of \<open>X\<close>. Then the forest with \<open>X\<close> detached, \<open>plug c []\<close>, contains
  the target node \<open>T\<close> at some place \<open>c'\<close>, and \<^verbatim>\<open>handleMoveNode\<close> sets the state to that
  forest with \<open>X\<close>, subtree and all, put into the sequence of \<open>T\<close> immediately before
  \<open>T\<close> for \<^verbatim>\<open>top\<close> and immediately after it for \<^verbatim>\<open>bottom\<close>. The second part is the
  scenario of the specification: moving \<^verbatim>\<open>1-1\<close> before its parent \<^verbatim>\<open>1\<close>.
\<close>

theorem move_splices_beside_target:
  "(forest = plug c [X] \<longrightarrow>
    count_list (forest_ids forest) (id' X) = 1 \<longrightarrow>
    count_list (forest_ids forest) t = 1 \<longrightarrow>
    t \<noteq> id' X \<longrightarrow>
    t \<notin> id' ` descendants X \<longrightarrow>
      (\<exists>c' T. id' T = t \<and> plug c [] = plug c' [T] \<and>
         handleMoveNode forest (id' X) t pos
           = SetNodes (plug c' (if pos = Top then [X, T] else [T, X])))) \<and>
   handleMoveNode [TocNode ''1'' ''A'' [TocNode ''1-1'' ''B'' []]] ''1-1'' ''1'' Top
     = SetNodes [TocNode ''1-1'' ''B'' [], TocNode ''1'' ''A'' []]"
proof
  show "forest = plug c [X] \<longrightarrow>
    count_list (forest_ids forest) (id' X) = 1 \<longrightarrow>
    count_list (forest_ids forest) t = 1 \<longrightarrow>
    t \<noteq> id' X \<longrightarrow>
    t \<notin> id' ` descendants X \<longrightarrow>
      (\<exists>c' T. id' T = t \<and> plug c [] = plug c' [T] \<and>
         handleMoveNode forest (id' X) t pos
           = SetNodes (plug c' (if pos = Top then [X, T] else [T, X])))"
  proof (intro impI)
    assume f: "forest = plug c [X]"
      and onceX: "count_list (forest_ids forest) (id' X) = 1"
      and oncet: "count_list (forest_ids forest) t = 1"
      and neq: "t \<noteq> id' X"
      and nd: "t \<notin> id' ` descendants X"
    have X: "id' X \<notin> set (ctx_ids c)"
      using f onceX once_in_plug(1) by simp
    have desc: "t \<notin> set (getDescendantIds X)"
      using nd by (simp add: descendant_ids)
    have "count (mset (forest_ids [X])) t = 0"
      using neq desc by (simp add: mset_forest_ids_single count_eq_zero_iff)
    moreover have "count (mset (forest_ids forest)) t
        = count (mset (ctx_ids c)) t + count (mset (forest_ids [X])) t"
      using f by (simp add: mset_plug)
    moreover have "count (mset (forest_ids (plug c []))) t = count (mset (ctx_ids c)) t"
      by (simp add: mset_plug)
    ultimately have once: "count_list (forest_ids (plug c [])) t = 1"
      using oncet unfolding count_list_mset by arith
    have "t \<in> set (forest_ids (plug c []))"
    proof (rule ccontr)
      assume "t \<notin> set (forest_ids (plug c []))"
      then have "count_list (forest_ids (plug c [])) t = 0"
        by (simp add: count_list_0_iff)
      with once show False by simp
    qed
    then obtain c' T where dec: "plug c [] = plug c' [T]" and T: "id' T = t"
      using id_occurs by blast
    have "count_list (forest_ids (plug c' [T])) (id' T) = 1"
      using once dec T by simp
    then have "id' T \<notin> set (ctx_ids c')"
      by (rule once_in_plug(1))
    then have "insert_node (plug c' [T]) (id' T) X pos
                 = plug c' (insert_node [T] (id' T) X pos)"
      by (rule insert_node_plug)
    then have "insert_node (plug c []) t X pos = plug c' (if pos = Top then [X, T] else [T, X])"
      unfolding insert_node_self using dec T by simp
    then have "handleMoveNode forest (id' X) t pos
                 = SetNodes (plug c' (if pos = Top then [X, T] else [T, X]))"
      using f X desc by (simp add: move_accepted)
    with T dec show "\<exists>c' T. id' T = t \<and> plug c [] = plug c' [T] \<and>
         handleMoveNode forest (id' X) t pos
           = SetNodes (plug c' (if pos = Top then [X, T] else [T, X]))"
      by blast
  qed
next
  show "handleMoveNode [TocNode ''1'' ''A'' [TocNode ''1-1'' ''B'' []]] ''1-1'' ''1'' Top
          = SetNodes [TocNode ''1-1'' ''B'' [], TocNode ''1'' ''A'' []]"
    by (simp add: handleMoveNode_def)
qed

text \<open>The theorem at work on \<^verbatim>\<open>initialData\<close>: the subtree \<^verbatim>\<open>1-2\<close> moved after chapter \<^verbatim>\<open>3\<close>.\<close>

theorem move_splices_beside_target_witness:
  "initialData
     = plug (Under [] ''1'' ''Chapter 1: The Beginning''
               (Here [TocNode ''1-1'' ''The first step'' []] [])
               [TocNode ''2'' ''Chapter 2: The Middle'' [], TocNode ''3'' ''Chapter 3: The End'' []])
            [TocNode ''1-2'' ''A fork in the road''
               [TocNode ''1-2-1'' ''The left path'' [], TocNode ''1-2-2'' ''The right path'' []]] \<and>
   count_list (forest_ids initialData) ''1-2'' = 1 \<and>
   count_list (forest_ids initialData) ''3'' = 1 \<and>
   ''3'' \<noteq> ''1-2'' \<and>
   ''3'' \<notin> id' ` descendants (TocNode ''1-2'' ''A fork in the road''
               [TocNode ''1-2-1'' ''The left path'' [], TocNode ''1-2-2'' ''The right path'' []]) \<and>
   (\<exists>c' T. id' T = ''3'' \<and>
      plug (Under [] ''1'' ''Chapter 1: The Beginning''
               (Here [TocNode ''1-1'' ''The first step'' []] [])
               [TocNode ''2'' ''Chapter 2: The Middle'' [], TocNode ''3'' ''Chapter 3: The End'' []])
           [] = plug c' [T] \<and>
      handleMoveNode initialData ''1-2'' ''3'' Bottom
        = SetNodes (plug c'
            [T, TocNode ''1-2'' ''A fork in the road''
                  [TocNode ''1-2-1'' ''The left path'' [],
                   TocNode ''1-2-2'' ''The right path'' []]])) \<and>
   handleMoveNode initialData ''1-2'' ''3'' Bottom
     = SetNodes
         [TocNode ''1'' ''Chapter 1: The Beginning'' [TocNode ''1-1'' ''The first step'' []],
          TocNode ''2'' ''Chapter 2: The Middle'' [],
          TocNode ''3'' ''Chapter 3: The End'' [],
          TocNode ''1-2'' ''A fork in the road''
            [TocNode ''1-2-1'' ''The left path'' [], TocNode ''1-2-2'' ''The right path'' []]]"
proof -
  let ?c = "Under [] ''1'' ''Chapter 1: The Beginning''
               (Here [TocNode ''1-1'' ''The first step'' []] [])
               [TocNode ''2'' ''Chapter 2: The Middle'' [], TocNode ''3'' ''Chapter 3: The End'' []]"
  let ?X = "TocNode ''1-2'' ''A fork in the road''
               [TocNode ''1-2-1'' ''The left path'' [], TocNode ''1-2-2'' ''The right path'' []]"
  have h1: "initialData = plug ?c [?X]"
    by (simp add: initialData_def)
  have h2: "count_list (forest_ids initialData) (id' ?X) = 1"
    by (simp add: initialData_def)
  have h3: "count_list (forest_ids initialData) ''3'' = 1"
    by (simp add: initialData_def)
  have h4: "''3'' \<noteq> id' ?X"
    by simp
  have h5: "''3'' \<notin> id' ` descendants ?X"
    by (simp add: descendants_nodes_of)
  have ex: "\<exists>c' T. id' T = ''3'' \<and> plug ?c [] = plug c' [T] \<and>
      handleMoveNode initialData (id' ?X) ''3'' Bottom
        = SetNodes (plug c' (if Bottom = Top then [?X, T] else [T, ?X]))"
    using move_splices_beside_target [of initialData ?c ?X "''3''" Bottom] h1 h2 h3 h4 h5
    by blast
  have run: "handleMoveNode initialData ''1-2'' ''3'' Bottom
     = SetNodes
         [TocNode ''1'' ''Chapter 1: The Beginning'' [TocNode ''1-1'' ''The first step'' []],
          TocNode ''2'' ''Chapter 2: The Middle'' [],
          TocNode ''3'' ''Chapter 3: The End'' [], ?X]"
    by (simp add: initialData_def handleMoveNode_def)
  from ex have "\<exists>c' T. id' T = ''3'' \<and> plug ?c [] = plug c' [T] \<and>
      handleMoveNode initialData ''1-2'' ''3'' Bottom = SetNodes (plug c' [T, ?X])"
    by simp
  with h1 h2 h3 h5 run show ?thesis
    by simp
qed

text \<open>
  Claim C6 (cascading delete). Let the node \<open>X\<close> occur in the forest
  (\<open>forest = plug c [X]\<close>) and let its id name that node only (Invariant 1 of the data
  model, asked here of this one id). Then \<^verbatim>\<open>deleteNode\<close> returns the forest with the hole
  left empty: \<open>X\<close> and its whole subtree are gone and the context, that is every other
  node with its title, its place and its order, is as it was. The ids of the input are
  those of the result together with the id of \<open>X\<close> and the ids of its descendants.
\<close>

theorem delete_removes_subtree:
  assumes "forest = plug c [X]"
    and "count_list (forest_ids forest) (id' X) = 1"
  shows "deleteNode forest (id' X) = plug c [] \<and>
         mset (forest_ids forest)
           = mset (forest_ids (deleteNode forest (id' X))) + mset (id' X # getDescendantIds X)"
proof -
  have "id' X \<notin> set (ctx_ids c)"
    using assms once_in_plug(1) by simp
  then have del: "deleteNode forest (id' X) = plug c []"
    using assms(1) by (simp add: deleteNode_plug deleteNode_self)
  have "mset (forest_ids forest) = mset (forest_ids (plug c [])) + mset (forest_ids [X])"
    using assms(1) by (simp add: mset_plug)
  with del show ?thesis
    by (simp add: mset_forest_ids_single)
qed

text \<open>The theorem at work on \<^verbatim>\<open>initialData\<close>, at the node \<^verbatim>\<open>1-2\<close>.\<close>

theorem delete_removes_subtree_witness:
  "initialData
     = plug (Under [] ''1'' ''Chapter 1: The Beginning''
               (Here [TocNode ''1-1'' ''The first step'' []] [])
               [TocNode ''2'' ''Chapter 2: The Middle'' [], TocNode ''3'' ''Chapter 3: The End'' []])
            [TocNode ''1-2'' ''A fork in the road''
               [TocNode ''1-2-1'' ''The left path'' [], TocNode ''1-2-2'' ''The right path'' []]] \<and>
   count_list (forest_ids initialData) ''1-2'' = 1 \<and>
   deleteNode initialData ''1-2''
     = [TocNode ''1'' ''Chapter 1: The Beginning'' [TocNode ''1-1'' ''The first step'' []],
        TocNode ''2'' ''Chapter 2: The Middle'' [], TocNode ''3'' ''Chapter 3: The End'' []] \<and>
   mset (forest_ids initialData)
     = mset (forest_ids (deleteNode initialData ''1-2'')) + mset [''1-2'', ''1-2-1'', ''1-2-2'']"
proof -
  let ?c = "Under [] ''1'' ''Chapter 1: The Beginning''
               (Here [TocNode ''1-1'' ''The first step'' []] [])
               [TocNode ''2'' ''Chapter 2: The Middle'' [], TocNode ''3'' ''Chapter 3: The End'' []]"
  let ?X = "TocNode ''1-2'' ''A fork in the road''
               [TocNode ''1-2-1'' ''The left path'' [], TocNode ''1-2-2'' ''The right path'' []]"
  have h1: "initialData = plug ?c [?X]"
    by (simp add: initialData_def)
  have h2: "count_list (forest_ids initialData) (id' ?X) = 1"
    by (simp add: initialData_def)
  have g: "getDescendantIds ?X = [''1-2-1'', ''1-2-2'']"
    by simp
  show ?thesis
    using h1 h2 delete_removes_subtree [OF h1 h2] g by simp
qed

text \<open>
  Claim C7 (add). With \<^verbatim>\<open>parentId === null\<close> the new node is appended to the root
  sequence. With the id of a node \<open>P\<close> that occurs in the forest, and that this id names
  alone, the result is the forest with \<open>P\<close> replaced by \<open>P\<close> with the new node appended to
  its children: the new node is the last child, the earlier children are unchanged and
  in the same order, and the context of \<open>P\<close> is untouched.
\<close>

theorem add_appends_last:
  "addNode forest None newNode = forest @ [newNode] \<and>
   (forest = plug c [P] \<longrightarrow> count_list (forest_ids forest) (id' P) = 1 \<longrightarrow>
      addNode forest (Some (id' P)) newNode
        = plug c [TocNode (id' P) (title P) (children P @ [newNode])])"
proof -
  have "addNode forest (Some (id' P)) newNode
          = plug c [TocNode (id' P) (title P) (children P @ [newNode])]"
    if "forest = plug c [P]" and "count_list (forest_ids forest) (id' P) = 1"
  proof -
    have "id' P \<notin> set (ctx_ids c)"
      using that once_in_plug(1) by simp
    moreover have "addNode [P] (Some (id' P)) newNode
                     = [TocNode (id' P) (title P) (children P @ [newNode])]"
      by (cases P) simp
    ultimately show ?thesis
      using that(1) by (simp add: addNode_plug)
  qed
  then show ?thesis by simp
qed

text \<open>The theorem at work on \<^verbatim>\<open>initialData\<close>, at the node \<^verbatim>\<open>1-2\<close>.\<close>

theorem add_appends_last_witness:
  "initialData
     = plug (Under [] ''1'' ''Chapter 1: The Beginning''
               (Here [TocNode ''1-1'' ''The first step'' []] [])
               [TocNode ''2'' ''Chapter 2: The Middle'' [], TocNode ''3'' ''Chapter 3: The End'' []])
            [TocNode ''1-2'' ''A fork in the road''
               [TocNode ''1-2-1'' ''The left path'' [], TocNode ''1-2-2'' ''The right path'' []]] \<and>
   count_list (forest_ids initialData) ''1-2'' = 1 \<and>
   addNode initialData None (TocNode ''4'' ''New Section'' [])
     = initialData @ [TocNode ''4'' ''New Section'' []] \<and>
   addNode initialData (Some ''1-2'') (TocNode ''4'' ''New Section'' [])
     = [TocNode ''1'' ''Chapter 1: The Beginning''
          [TocNode ''1-1'' ''The first step'' [],
           TocNode ''1-2'' ''A fork in the road''
             [TocNode ''1-2-1'' ''The left path'' [], TocNode ''1-2-2'' ''The right path'' [],
              TocNode ''4'' ''New Section'' []]],
        TocNode ''2'' ''Chapter 2: The Middle'' [], TocNode ''3'' ''Chapter 3: The End'' []]"
proof -
  let ?c = "Under [] ''1'' ''Chapter 1: The Beginning''
               (Here [TocNode ''1-1'' ''The first step'' []] [])
               [TocNode ''2'' ''Chapter 2: The Middle'' [], TocNode ''3'' ''Chapter 3: The End'' []]"
  let ?P = "TocNode ''1-2'' ''A fork in the road''
               [TocNode ''1-2-1'' ''The left path'' [], TocNode ''1-2-2'' ''The right path'' []]"
  have h1: "initialData = plug ?c [?P]"
    by (simp add: initialData_def)
  have h2: "count_list (forest_ids initialData) (id' ?P) = 1"
    by (simp add: initialData_def)
  show ?thesis
    using h1 h2 add_appends_last [of initialData "TocNode ''4'' ''New Section'' []" ?c ?P]
    by simp
qed

text \<open>
  Claim C8 (unknown ids). For an id that occurs nowhere in the forest, \<^verbatim>\<open>addNode\<close> with
  that parent id, \<^verbatim>\<open>updateNodeTitle\<close> and \<^verbatim>\<open>deleteNode\<close> each return the forest they were
  given. The three functions are total and have no failing branch, so nothing is raised.
\<close>

theorem unknown_id_is_noop:
  "x \<notin> set (forest_ids forest) \<Longrightarrow>
     addNode forest (Some x) newNode = forest \<and>
     updateNodeTitle forest x newTitle = forest \<and>
     deleteNode forest x = forest"
  by (simp add: addNode_absent updateNodeTitle_absent deleteNode_absent)

text \<open>The theorem at work on \<^verbatim>\<open>initialData\<close>, where no node has the id \<^verbatim>\<open>1-3\<close>.\<close>

theorem unknown_id_is_noop_witness:
  "''1-3'' \<notin> set (forest_ids initialData) \<and>
   addNode initialData (Some ''1-3'') (TocNode ''4'' ''New Section'' []) = initialData \<and>
   updateNodeTitle initialData ''1-3'' ''Renamed'' = initialData \<and>
   deleteNode initialData ''1-3'' = initialData"
proof -
  have h: "''1-3'' \<notin> set (forest_ids initialData)"
    by (simp add: initialData_def)
  show ?thesis
    using h unknown_id_is_noop [OF h, of "TocNode ''4'' ''New Section'' []" "''Renamed''"]
    by simp
qed

text \<open>
  Claim C9 (rename). Let \<open>X\<close> occur in the forest and let its id name that node only.
  For every new title, the empty string included, \<^verbatim>\<open>updateNodeTitle\<close> returns the forest
  with \<open>X\<close> replaced by the node of the same id and the same children under the new
  title; the context of \<open>X\<close> is untouched.
\<close>

theorem rename_changes_title_only:
  assumes "forest = plug c [X]"
    and "count_list (forest_ids forest) (id' X) = 1"
  shows "updateNodeTitle forest (id' X) newTitle = plug c [TocNode (id' X) newTitle (children X)]"
proof -
  have "id' X \<notin> set (ctx_ids c)"
    using assms once_in_plug(1) by simp
  moreover have "updateNodeTitle [X] (id' X) newTitle = [TocNode (id' X) newTitle (children X)]"
    by (cases X) simp
  ultimately show ?thesis
    using assms(1) by (simp add: updateNodeTitle_plug)
qed

text \<open>The theorem at work on \<^verbatim>\<open>initialData\<close>, at the node \<^verbatim>\<open>1-2\<close> and the empty title.\<close>

theorem rename_changes_title_only_witness:
  "initialData
     = plug (Under [] ''1'' ''Chapter 1: The Beginning''
               (Here [TocNode ''1-1'' ''The first step'' []] [])
               [TocNode ''2'' ''Chapter 2: The Middle'' [], TocNode ''3'' ''Chapter 3: The End'' []])
            [TocNode ''1-2'' ''A fork in the road''
               [TocNode ''1-2-1'' ''The left path'' [], TocNode ''1-2-2'' ''The right path'' []]] \<and>
   count_list (forest_ids initialData) ''1-2'' = 1 \<and>
   updateNodeTitle initialData ''1-2'' ''''
     = [TocNode ''1'' ''Chapter 1: The Beginning''
          [TocNode ''1-1'' ''The first step'' [],
           TocNode ''1-2'' ''''
             [TocNode ''1-2-1'' ''The left path'' [], TocNode ''1-2-2'' ''The right path'' []]],
        TocNode ''2'' ''Chapter 2: The Middle'' [], TocNode ''3'' ''Chapter 3: The End'' []]"
proof -
  let ?c = "Under [] ''1'' ''Chapter 1: The Beginning''
               (Here [TocNode ''1-1'' ''The first step'' []] [])
               [TocNode ''2'' ''Chapter 2: The Middle'' [], TocNode ''3'' ''Chapter 3: The End'' []]"
  let ?X = "TocNode ''1-2'' ''A fork in the road''
               [TocNode ''1-2-1'' ''The left path'' [], TocNode ''1-2-2'' ''The right path'' []]"
  have h1: "initialData = plug ?c [?X]"
    by (simp add: initialData_def)
  have h2: "count_list (forest_ids initialData) (id' ?X) = 1"
    by (simp add: initialData_def)
  show ?thesis
    using h1 h2 rename_changes_title_only [OF h1 h2, of "''''"] by simp
qed

text \<open>
  Claim C10 (no duplicate check in add). Let the id of the new node already occur in the
  forest, and let the parent be \<^verbatim>\<open>null\<close> or an id that occurs in the forest. Then
  \<^verbatim>\<open>addNode\<close> inserts the node all the same: its id occurs at least twice in the
  result, whose ids are therefore not pairwise different; it occurs exactly twice when
  the ids of the forest were pairwise different and the new node has no children.
\<close>

theorem add_has_no_duplicate_check:
  assumes "id' newNode \<in> set (forest_ids forest)"
    and "case parentId of None \<Rightarrow> True | Some p \<Rightarrow> p \<in> set (forest_ids forest)"
  shows "2 \<le> count_list (forest_ids (addNode forest parentId newNode)) (id' newNode) \<and>
         \<not> distinct (forest_ids (addNode forest parentId newNode)) \<and>
         (distinct (forest_ids forest) \<and> children newNode = [] \<longrightarrow>
            count_list (forest_ids (addNode forest parentId newNode)) (id' newNode) = 2)"
proof -
  let ?r = "addNode forest parentId newNode"
  have sub: "mset (forest_ids forest) + mset (forest_ids [newNode]) \<subseteq># mset (forest_ids ?r)"
  proof (cases parentId)
    case None
    then show ?thesis by simp
  next
    case (Some p)
    with assms(2) show ?thesis by (simp add: addNode_ids_present)
  qed
  have "1 \<le> count (mset (forest_ids forest)) (id' newNode)"
    using assms(1) by (simp add: Suc_le_eq)
  moreover have "count (mset (forest_ids forest) + mset (forest_ids [newNode])) (id' newNode)
      = count (mset (forest_ids forest)) (id' newNode)
        + count (mset (forest_ids [newNode])) (id' newNode)"
    by (rule count_union)
  ultimately
  have "2 \<le> count (mset (forest_ids forest) + mset (forest_ids [newNode])) (id' newNode)"
    using count_single_self [of newNode] by arith
  also have "\<dots> \<le> count (mset (forest_ids ?r)) (id' newNode)"
    using sub by (rule mset_subset_eq_count)
  finally have two: "2 \<le> count_list (forest_ids ?r) (id' newNode)"
    by (simp add: count_list_mset)
  have nd: "\<not> distinct (forest_ids ?r)"
  proof
    assume "distinct (forest_ids ?r)"
    then have "count (mset (forest_ids ?r)) (id' newNode) \<le> 1"
      by (simp add: distinct_count_atmost_1)
    with two show False by (simp add: count_list_mset)
  qed
  have "count_list (forest_ids ?r) (id' newNode) = 2"
    if d: "distinct (forest_ids forest)" and leaf: "children newNode = []"
  proof -
    have "mset (forest_ids ?r) = mset (forest_ids forest) + mset (forest_ids [newNode])"
    proof (cases parentId)
      case None
      then show ?thesis by simp
    next
      case (Some p)
      with assms(2) d show ?thesis by (simp add: addNode_ids_distinct)
    qed
    moreover have "count (mset (forest_ids forest)) (id' newNode) = 1"
      using d assms(1) by (simp add: distinct_count_atmost_1)
    moreover have "count (mset (forest_ids [newNode])) (id' newNode) = 1"
      using leaf by (cases newNode) simp
    ultimately show ?thesis by (simp add: count_list_mset)
  qed
  with two nd show ?thesis by blast
qed

text \<open>The theorem at work on \<^verbatim>\<open>initialData\<close>: a new node with the id \<^verbatim>\<open>2\<close> of chapter 2, added
  below \<^verbatim>\<open>1-2\<close>.\<close>

theorem add_has_no_duplicate_check_witness:
  "id' (TocNode ''2'' ''New Section'' []) \<in> set (forest_ids initialData) \<and>
   (case Some ''1-2'' of None \<Rightarrow> True | Some p \<Rightarrow> p \<in> set (forest_ids initialData)) \<and>
   distinct (forest_ids initialData) \<and>
   count_list (forest_ids (addNode initialData (Some ''1-2'') (TocNode ''2'' ''New Section'' [])))
     ''2'' = 2 \<and>
   \<not> distinct (forest_ids (addNode initialData (Some ''1-2'') (TocNode ''2'' ''New Section'' [])))"
proof -
  let ?n = "TocNode ''2'' ''New Section'' []"
  have h1: "id' ?n \<in> set (forest_ids initialData)"
    by (simp add: initialData_def)
  have h2: "case Some ''1-2'' of None \<Rightarrow> True | Some p \<Rightarrow> p \<in> set (forest_ids initialData)"
    by (simp add: initialData_def)
  have h3: "distinct (forest_ids initialData)"
    by (simp add: initialData_def)
  show ?thesis
    using h1 h2 h3 add_has_no_duplicate_check [OF h1 h2] by simp
qed

end
